theory Spec2Isabelle
  imports Complex_Main "HOL-Library.Sublist"
begin

section \<open>Effects and errors\<close>

text \<open>
  The program logs through the root logger, talks to the release server over HTTP, sleeps
  and terminates through \<^verbatim>\<open>sys.exit\<close>. Each of these is an event of a trace; a function
  with effects returns the events it produced together with its result, and a raise or
  an exit is the \<open>Inl\<close> branch of the result.

  Strings are lists of characters; one \<open>char\<close> stands for one code point of the Python
  string, which is exact for code points below 256.
\<close>

datatype level = INFO | WARNING | ERROR

text \<open>The requests the program sends after the login: the search for one page (the page
  index and \<^verbatim>\<open>resultsPerPage\<close>), the active tasks of a release, and a phase.\<close>

datatype request =
    POST_search nat nat
  | GET_active_tasks string
  | GET_phase string

datatype event =
    Log level string
  | Print string
  | Request request
  | Sleep int

datatype error =
    SystemExit int
  | HTTPError nat

type_synonym 'a io = "event list \<times> (error + 'a)"

definition return_io :: "'a \<Rightarrow> 'a io" where
  "return_io x = ([], Inr x)"

definition bind_io :: "'a io \<Rightarrow> ('a \<Rightarrow> 'b io) \<Rightarrow> 'b io" where
  "bind_io m f =
     (case m of
        (ev, Inl e) \<Rightarrow> (ev, Inl e)
      | (ev, Inr x) \<Rightarrow> (case f x of (ev', r) \<Rightarrow> (ev @ ev', r)))"

text \<open>A list comprehension whose element expression has effects: left to right, and the
  first raise ends it.\<close>

fun mapM_io :: "('a \<Rightarrow> 'b io) \<Rightarrow> 'a list \<Rightarrow> 'b list io" where
  "mapM_io f [] = return_io []"
| "mapM_io f (x # xs) =
     bind_io (f x) (\<lambda>y. bind_io (mapM_io f xs) (\<lambda>ys. return_io (y # ys)))"

section \<open>The identifier parser \<^verbatim>\<open>u_parse_xlr_id\<close>\<close>

text \<open>
  The two substitutions of the parser are

  \<^verbatim>\<open>re.sub(rf"^(.*[-\/]{part}[^-\/]*).*", r"\1", id)\<close> and
  \<^verbatim>\<open>re.sub(rf".*[-\/]({part}[^-\/]*).*", r"\1", id)\<close>.

  Both are compiled without flags: \<^verbatim>\<open>.\<close> matches every character but the line feed,
  \<^verbatim>\<open>^\<close> matches at the start of the string only, and a negated class such as
  \<^verbatim>\<open>[^-\/]\<close> does match a line feed. \<open>part\<close> is one of three words without
  metacharacters, so it is matched literally.
\<close>

definition is_delim :: "char \<Rightarrow> bool" where
  "is_delim c \<longleftrightarrow> c = CHR ''-'' \<or> c = CHR ''/''"

definition newline :: char where
  "newline = CHR 0x0A"

text \<open>\<^verbatim>\<open>[-\/]{part}[^-\/]*\<close> at the head of a string: the text matched (the delimiter,
  the part name and the longest run of characters that are not delimiters) and what
  follows it.\<close>

definition match_segment :: "string \<Rightarrow> string \<Rightarrow> (string \<times> string) option" where
  "match_segment part s =
     (case s of
        [] \<Rightarrow> None
      | c # cs \<Rightarrow>
          if is_delim c \<and> prefix part cs
          then Some (c # part @ takeWhile (\<lambda>x. \<not> is_delim x) (drop (length part) cs),
                     dropWhile (\<lambda>x. \<not> is_delim x) (drop (length part) cs))
          else None)"

text \<open>\<^verbatim>\<open>.*[-\/]{part}[^-\/]*\<close> at the head of a string. The greedy \<^verbatim>\<open>.*\<close> first takes
  as many characters as it can (it stops at a line feed) and gives them back one at a
  time, so the match found is the one with the longest text under \<^verbatim>\<open>.*\<close>. The result
  is the text under \<^verbatim>\<open>.*\<close>, the text of the segment with its delimiter, and the rest.\<close>

fun match_upto_segment :: "string \<Rightarrow> string \<Rightarrow> (string \<times> string \<times> string) option" where
  "match_upto_segment part [] = None"
| "match_upto_segment part (c # cs) =
     (case (if c = newline then None else match_upto_segment part cs) of
        Some (pre, seg, r) \<Rightarrow> Some (c # pre, seg, r)
      | None \<Rightarrow>
          (case match_segment part (c # cs) of
             Some (seg, r) \<Rightarrow> Some ([], seg, r)
           | None \<Rightarrow> None))"

text \<open>The trailing \<^verbatim>\<open>.*\<close> of both patterns eats the rest of the line.\<close>

definition skip_line :: "string \<Rightarrow> string" where
  "skip_line r = dropWhile (\<lambda>x. x \<noteq> newline) r"

text \<open>The anchored substitution: one match at most, at position 0, replaced by group 1
  (everything up to the end of the segment).\<close>

definition sub_upto_part :: "string \<Rightarrow> string \<Rightarrow> string" where
  "sub_upto_part part s =
     (case match_upto_segment part s of
        None \<Rightarrow> s
      | Some (pre, seg, r) \<Rightarrow> pre @ seg @ skip_line r)"

lemma match_segment_shorter:
  "match_segment part s = Some (seg, r) \<Longrightarrow> length r < length s"
  by (auto simp: match_segment_def split: list.splits if_splits
      intro!: le_imp_less_Suc order_trans [OF length_dropWhile_le])

lemma match_upto_segment_shorter:
  "match_upto_segment part s = Some (pre, seg, r) \<Longrightarrow> length r < length s"
proof (induction s arbitrary: pre)
  case Nil
  then show ?case by simp
next
  case (Cons c cs)
  show ?case
  proof (cases "if c = newline then None else match_upto_segment part cs")
    case None
    with Cons.prems obtain "match_segment part (c # cs) = Some (seg, r)"
      by (auto split: option.splits)
    then show ?thesis by (rule match_segment_shorter)
  next
    case (Some t)
    with Cons.prems obtain pre' where "match_upto_segment part cs = Some (pre', seg, r)"
      by (cases t) (auto split: if_splits)
    from Cons.IH [OF this] show ?thesis by simp
  qed
qed

text \<open>The substitution without anchor: \<^verbatim>\<open>re.sub\<close> looks for the leftmost match, copies
  the characters before it, puts group 1 (the segment without its delimiter) in its place
  and goes on behind the match.\<close>

function sub_last_part :: "string \<Rightarrow> string \<Rightarrow> string" where
  "sub_last_part part [] = []"
| "sub_last_part part (c # cs) =
     (case match_upto_segment part (c # cs) of
        Some (pre, seg, r) \<Rightarrow> tl seg @ sub_last_part part (skip_line r)
      | None \<Rightarrow> c # sub_last_part part cs)"
  by pat_completeness auto
termination
proof (relation "measure (\<lambda>(part, s). length s)")
  fix part c cs x2 pre y seg r
  assume "match_upto_segment part (c # cs) = Some x2" "(pre, y) = x2" "(seg, r) = y"
  then have "match_upto_segment part (c # cs) = Some (pre, seg, r)" by simp
  from match_upto_segment_shorter [OF this]
  have "length (skip_line r) < length (c # cs)"
    unfolding skip_line_def by (rule le_less_trans [OF length_dropWhile_le])
  then show "((part, skip_line r), (part, c # cs)) \<in> measure (\<lambda>(part, s). length s)"
    by simp
qed simp_all

text \<open>\<^verbatim>\<open>str.find\<close>: the index of the first occurrence, or \<open>-1\<close>.\<close>

definition find_char :: "char \<Rightarrow> string \<Rightarrow> int" where
  "find_char c s =
     (if c \<in> set s then int (length (takeWhile (\<lambda>x. x \<noteq> c) s)) else - 1)"

definition sentinel :: "string \<Rightarrow> char" where
  "sentinel ident = (if find_char CHR ''-'' ident > 0 then CHR ''-'' else CHR ''/'')"

definition not_implemented_msg :: "string \<Rightarrow> string" where
  "not_implemented_msg part =
     ''(I am) unable to get '' @ part @ '' from id: it'' @ [CHR 0x27] @ ''s not implemented.''"

definition u_parse_xlr_id :: "string \<Rightarrow> string \<Rightarrow> bool \<Rightarrow> string io" where
  "u_parse_xlr_id ident part last_part_only =
     (if part \<notin> set [''Release'', ''Phase'', ''Task'']
      then ([Log ERROR (not_implemented_msg part)], Inl (SystemExit 1))
      else
        let ident' = ident @ [sentinel ident];
            retval = sub_upto_part part ident';
            retval = (if last_part_only then sub_last_part part ident' else retval)
        in return_io retval)"

section \<open>The release server and the entities built from its answers\<close>

text \<open>
  The module keeps one logged-in \<^verbatim>\<open>Server\<close> in a global; here it is an argument. What the
  server answers is a function of the request: the JSON body, or the status that makes
  \<^verbatim>\<open>raise_for_status\<close> raise. Of each JSON object the fields the program reads are kept
  (\<^verbatim>\<open>self.__dict__.update(kwargs)\<close> copies all of them into the object).
\<close>

record release_json =
  rj_id :: string
  rj_title :: string
  rj_status :: string
  rj_currentPhase :: string

record task_json =
  tj_id :: string
  tj_title :: string
  tj_status :: string
  tj_type :: string

record phase_json =
  pj_id :: string
  pj_title :: string

record search_data =
  d_title :: string
  d_tags :: "string list"
  d_failed :: bool
  d_planned :: bool
  d_paused :: bool
  d_inProgress :: bool
  d_completed :: bool
  d_aborted :: bool

record server =
  url :: string
  search_response :: "search_data \<Rightarrow> nat \<Rightarrow> nat \<Rightarrow> nat + release_json list"
  active_tasks_response :: "string \<Rightarrow> nat + task_json list"
  phase_response :: "string \<Rightarrow> nat + phase_json"

definition raise_for_status :: "nat + 'a \<Rightarrow> error + 'a" where
  "raise_for_status response =
     (case response of Inl code \<Rightarrow> Inl (HTTPError code) | Inr body \<Rightarrow> Inr body)"

record phase =
  p_id :: string
  p_title :: string

record task =
  t_id :: string
  t_id_long :: string
  t_phase_id :: string
  t_release_id :: string
  t_title :: string
  t_status :: string
  t_type :: string
  t_phase :: phase

record release =
  r_id :: string
  r_id_long :: string
  r_title :: string
  r_status :: string
  r_currentPhase :: string
  r_active_tasks :: "task list"

text \<open>\<^verbatim>\<open>search_releases\<close> sets two more attributes on every release it returns.\<close>

record linked_release = release +
  r_url :: string
  r_server :: server

definition get_phase_by_id :: "server \<Rightarrow> string \<Rightarrow> phase io" where
  "get_phase_by_id srv phase_id_long =
     bind_io ([Request (GET_phase phase_id_long)],
              raise_for_status (phase_response srv phase_id_long))
       (\<lambda>resp_json. return_io \<lparr>p_id = pj_id resp_json, p_title = pj_title resp_json\<rparr>)"

definition Task_init :: "server \<Rightarrow> task_json \<Rightarrow> task io" where
  "Task_init srv kwargs =
     bind_io (u_parse_xlr_id (tj_id kwargs) ''Task'' False) (\<lambda>tid.
     bind_io (u_parse_xlr_id (tj_id kwargs) ''Phase'' False) (\<lambda>phase_id.
     bind_io (u_parse_xlr_id (tj_id kwargs) ''Release'' True) (\<lambda>release_id.
     bind_io (get_phase_by_id srv phase_id) (\<lambda>ph.
     return_io \<lparr>t_id = tid, t_id_long = tj_id kwargs, t_phase_id = phase_id,
                t_release_id = release_id, t_title = tj_title kwargs,
                t_status = tj_status kwargs, t_type = tj_type kwargs, t_phase = ph\<rparr>))))"

definition get_active_tasks :: "server \<Rightarrow> string \<Rightarrow> task list io" where
  "get_active_tasks srv rid =
     bind_io ([Request (GET_active_tasks rid)],
              raise_for_status (active_tasks_response srv rid))
       (mapM_io (Task_init srv))"

definition Release_init :: "server \<Rightarrow> release_json \<Rightarrow> release io" where
  "Release_init srv kwargs =
     bind_io (u_parse_xlr_id (rj_id kwargs) ''Release'' True) (\<lambda>rid.
     bind_io (get_active_tasks srv rid) (\<lambda>tasks.
     return_io \<lparr>r_id = rid, r_id_long = rj_id kwargs, r_title = rj_title kwargs,
                r_status = rj_status kwargs, r_currentPhase = rj_currentPhase kwargs,
                r_active_tasks = tasks\<rparr>))"

section \<open>The search: \<^verbatim>\<open>Release.search_releases\<close>\<close>







section \<open>The report section: \<^verbatim>\<open>Release.get_md_from_releases\<close>\<close>

text \<open>\<^verbatim>\<open>re.sub(r"\d*A\d*-", r"", title)\<close>: every leftmost match is removed. At a position
  the two greedy \<^verbatim>\<open>\d*\<close> have nothing to give back that would help (a digit is neither
  \<^verbatim>\<open>A\<close> nor \<^verbatim>\<open>-\<close>), so a match is decided by the longest runs of digits.\<close>

text \<open>\<^verbatim>\<open>\d\<close>: among the code points below 256 the decimal digits are \<open>0\<close> to \<open>9\<close>.\<close>

definition is_digit :: "char \<Rightarrow> bool" where
  "is_digit c \<longleftrightarrow> c \<in> set ''0123456789''"

definition match_ticket :: "string \<Rightarrow> string option" where
  "match_ticket s =
     (case dropWhile is_digit s of
        [] \<Rightarrow> None
      | a # r \<Rightarrow>
          if a = CHR ''A'' then
            (case dropWhile is_digit r of
               [] \<Rightarrow> None
             | h # r' \<Rightarrow> if h = CHR ''-'' then Some r' else None)
          else None)"

lemma match_ticket_shorter: "match_ticket s = Some r \<Longrightarrow> length r < length s"
proof -
  assume m: "match_ticket s = Some r"
  then obtain a r1 where 1: "dropWhile is_digit s = a # r1"
    by (auto simp: match_ticket_def split: list.splits)
  with m obtain h where 2: "dropWhile is_digit r1 = h # r"
    by (auto simp: match_ticket_def split: list.splits if_splits)
  have "length (dropWhile is_digit s) \<le> length s" "length (dropWhile is_digit r1) \<le> length r1"
    by (rule length_dropWhile_le)+
  with 1 2 show ?thesis by simp
qed

function strip_ticket :: "string \<Rightarrow> string" where
  "strip_ticket [] = []"
| "strip_ticket (c # cs) =
     (case match_ticket (c # cs) of
        Some r \<Rightarrow> strip_ticket r
      | None \<Rightarrow> c # strip_ticket cs)"
  by pat_completeness auto
termination
  by (relation "measure length") (auto dest: match_ticket_shorter)

text \<open>The table is laid out by the package \<^verbatim>\<open>markdown_table_generator\<close>, which is not
  part of the repository: \<open>generate_markdown\<close> stands for
  \<^verbatim>\<open>generate_markdown(table_from_string_list(rows, Alignment.LEFT))\<close>.\<close>

definition header_row :: "string list" where
  "header_row = [''Release'', ''Status'', ''Active Phase'', ''Active task'', ''Task type'']"

text \<open>The inner loop assigns \<open>v3\<close>, \<open>v4\<close> and \<open>v5\<close> once per active task.\<close>

definition active_cells :: "task list \<Rightarrow> string \<times> string \<times> string" where
  "active_cells tasks =
     foldl (\<lambda>(v3, v4, v5) active_task.
              (p_title (t_phase active_task), t_title active_task, t_type active_task))
       (''-'', ''-'', ''-'') tasks"

definition md_row :: "linked_release \<Rightarrow> string list" where
  "md_row release =
     (let v1 = '' ['' @ strip_ticket (r_title release) @ '']('' @ r_url release @ '')'';
          v2 = r_status release
      in case active_cells (r_active_tasks release) of
           (v3, v4, v5) \<Rightarrow> [v1, v2, v3, v4, v5])"

definition md_rows :: "linked_release list \<Rightarrow> string list list" where
  "md_rows releases = header_row # map md_row releases"

definition get_md_from_releases ::
  "(string list list \<Rightarrow> string) \<Rightarrow> linked_release list \<Rightarrow> string \<Rightarrow> string" where
  "get_md_from_releases generate_markdown releases title =
     (let output_md = ''## '' @ title @ [newline]
      in if length releases > 0
         then output_md @ generate_markdown (md_rows releases) @ [newline]
         else output_md @ ''No releases found.'' @ [newline, newline])"

section \<open>The poll loop: \<^verbatim>\<open>main\<close>\<close>

text \<open>
  The process finds around it: what \<^verbatim>\<open>parser.parse_args()\<close> makes of the command line
  (the arguments, or the exit of \<^verbatim>\<open>argparse\<close>), which paths exist, and a clock. The clock
  is the sequence of the values that the calls of \<^verbatim>\<open>time.time()\<close> return, one after the
  other. The state that changes is the number of readings taken and the events so far.

  A float is a real number here. The end time of the loop, which the code computes as a
  sum and a product of doubles, is the exact sum and product; the code's value can differ
  from it by the rounding of these operations, and \<^verbatim>\<open>nan\<close> and \<^verbatim>\<open>inf\<close> for \<^verbatim>\<open>--hours\<close> are
  not represented. The properties proved of the loop do not depend on how the end time
  is rounded.
\<close>

record args =
  out_dir :: string
  keep_files :: bool
  release_title :: string
  run_hours :: real
  call_every_min :: int

record env =
  parse_args :: "error + args"
  path_exists :: "string \<Rightarrow> bool"
  clock :: "nat \<Rightarrow> real"

record world =
  clock_reads :: nat
  events :: "event list"

definition time_time :: "env \<Rightarrow> world \<Rightarrow> real \<times> world" where
  "time_time e w = (clock e (clock_reads w), w\<lparr>clock_reads := clock_reads w + 1\<rparr>)"

text \<open>\<^verbatim>\<open>int(x)\<close> of a float truncates towards zero.\<close>

definition py_int :: "real \<Rightarrow> int" where
  "py_int x = (if 0 \<le> x then \<lfloor>x\<rfloor> else \<lceil>x\<rceil>)"

definition emit :: "event \<Rightarrow> world \<Rightarrow> world" where
  "emit ev w = w\<lparr>events := events w @ [ev]\<rparr>"

text \<open>\<^verbatim>\<open>str\<close> of an integer and of a truth value, as the f-strings of the log messages
  format them.\<close>

function str_nat :: "nat \<Rightarrow> string" where
  "str_nat n =
     (if n < 10 then [''0123456789'' ! n]
      else str_nat (n div 10) @ [''0123456789'' ! (n mod 10)])"
  by pat_completeness auto
termination
  by (relation "measure id") auto

declare str_nat.simps [simp del]

definition str_int :: "int \<Rightarrow> string" where
  "str_int i = (if i < 0 then CHR ''-'' # str_nat (nat (- i)) else str_nat (nat i))"

definition str_bool :: "bool \<Rightarrow> string" where
  "str_bool b = (if b then ''True'' else ''False'')"

text \<open>\<^verbatim>\<open>generate_report\<close> is an argument of the loop: a call of it may change the state, may
  raise (an HTTP error of one of its searches), and may not return (a search whose pages
  never end). What is proved of the loop holds for whatever it does.\<close>

type_synonym report_generator =
  "string \<Rightarrow> string \<Rightarrow> bool \<Rightarrow> world \<Rightarrow> ((error + unit) \<times> world) option"

text \<open>The end of a pass of the loop: sleep or warn.\<close>

definition wait_or_warn :: "int \<Rightarrow> world \<Rightarrow> world" where
  "wait_or_warn sleep_time_s w =
     (if sleep_time_s > 0
      then emit (Sleep sleep_time_s)
             (emit (Log INFO (''Waiting '' @ str_int sleep_time_s @ '' seconds...'')) w)
      else emit (Log WARNING (''Wait time too low. ('' @ str_int sleep_time_s @ '')'')) w)"

datatype step = Break world | Raise error world | Continue world

text \<open>One pass through the body of \<^verbatim>\<open>while True\<close>.\<close>

definition poll_cycle :: "report_generator \<Rightarrow> env \<Rightarrow> args \<Rightarrow> real \<Rightarrow> world \<Rightarrow> step option" where
  "poll_cycle generate_report e a run_end w =
     (case time_time e w of (t1, w1) \<Rightarrow>
      let next_run = py_int t1 + call_every_min a * 60 in
      case time_time e w1 of (t2, w2) \<Rightarrow>
      if real_of_int (py_int t2) > run_end then Some (Break w2)
      else
        (case generate_report (release_title a) (out_dir a) (keep_files a) w2 of
           None \<Rightarrow> None
         | Some (Inl err, w3) \<Rightarrow> Some (Raise err w3)
         | Some (Inr u, w3) \<Rightarrow>
             (case time_time e w3 of (t3, w4) \<Rightarrow>
              let sleep_time_s = py_int t3 - next_run in
              if real_of_int next_run > run_end then Some (Break w4)
              else Some (Continue (wait_or_warn sleep_time_s w4)))))"

partial_function (option) poll_loop ::
  "report_generator \<Rightarrow> env \<Rightarrow> args \<Rightarrow> real \<Rightarrow> world \<Rightarrow> ((error + unit) \<times> world) option" where
  "poll_loop generate_report e a run_end w =
     (case poll_cycle generate_report e a run_end w of
        None \<Rightarrow> None
      | Some (Break w') \<Rightarrow> Some (Inr (), w')
      | Some (Raise err w') \<Rightarrow> Some (Inl err, w')
      | Some (Continue w') \<Rightarrow> poll_loop generate_report e a run_end w')"

declare poll_loop.simps [code]

definition no_directory_msg :: "string \<Rightarrow> string" where
  "no_directory_msg dir =
     ''Directory '' @ [CHR 0x27] @ dir @ [CHR 0x27] @ '' does not exist, aborting.''"

definition run_parameters :: "args \<Rightarrow> string list" where
  "run_parameters a =
     [''Run parameters:'',
      '' - Collecting info every '' @ str_int (call_every_min a) @ '' minutes.'',
      '' - Keep files historical: '' @ str_bool (keep_files a),
      '' - Output directory: '' @ out_dir a,
      '' - Release to be monitored: '' @ release_title a,
      '' - Run time: '' @ release_title a]"

definition main :: "report_generator \<Rightarrow> env \<Rightarrow> world \<Rightarrow> ((error + unit) \<times> world) option" where
  "main generate_report e w =
     (case parse_args e of
        Inl err \<Rightarrow> Some (Inl err, w)
      | Inr a \<Rightarrow>
          if release_title a = []
          then Some (Inl (SystemExit 1),
                     emit (Print ''usage: TODO'') (emit (Log ERROR ''Release title not given.'') w))
          else if \<not> path_exists e (out_dir a)
          then Some (Inl (SystemExit 1), emit (Log ERROR (no_directory_msg (out_dir a))) w)
          else
            (let w1 = foldl (\<lambda>w msg. emit (Log INFO msg) w) w (run_parameters a)
             in case time_time e w1 of (t0, w2) \<Rightarrow>
                  poll_loop generate_report e a
                    (real_of_int (py_int t0) + run_hours a * 60 * 60) w2))"

text \<open>The last lines of the script: \<^verbatim>\<open>main()\<close>, and \<^verbatim>\<open>main()\<close> again. An exit or an
  exception of the first call ends the process.\<close>

definition run_as_script ::
  "report_generator \<Rightarrow> env \<Rightarrow> world \<Rightarrow> ((error + unit) \<times> world) option" where
  "run_as_script generate_report e w =
     (case main generate_report e w of
        None \<Rightarrow> None
      | Some (Inl err, w') \<Rightarrow> Some (Inl err, w')
      | Some (Inr u, w') \<Rightarrow> main generate_report e w')"

section \<open>Notions used to state the properties\<close>

text \<open>A delimiter immediately followed by the part name somewhere in the string: what
  both patterns of the parser look for.\<close>

fun has_part :: "string \<Rightarrow> string \<Rightarrow> bool" where
  "has_part part [] = False"
| "has_part part (c # cs) = ((is_delim c \<and> prefix part cs) \<or> has_part part cs)"

definition plain_part :: "string \<Rightarrow> bool" where
  "plain_part part \<longleftrightarrow> part \<noteq> [] \<and> (\<forall>c\<in>set part. \<not> is_delim c)"

text \<open>The segments of a composite id, as the specification speaks of them: the pieces
  between delimiters. \<open>last_segment_with\<close> is the last of the given segments that starts
  with the part name.\<close>

fun segments :: "string \<Rightarrow> string list" where
  "segments [] = [[]]"
| "segments (c # cs) =
     (if is_delim c then [] # segments cs
      else (case segments cs of [] \<Rightarrow> [[c]] | seg # segs \<Rightarrow> (c # seg) # segs))"

definition last_segment_with :: "string \<Rightarrow> string list \<Rightarrow> string option" where
  "last_segment_with part segs =
     (case filter (prefix part) (rev segs) of [] \<Rightarrow> None | seg # _ \<Rightarrow> Some seg)"

text \<open>The page indices of the search requests of a trace, in the order of the requests.\<close>

fun page_of :: "event \<Rightarrow> nat list" where
  "page_of (Request (POST_search page_index per_page)) = [page_index]"
| "page_of _ = []"

definition search_pages :: "event list \<Rightarrow> nat list" where
  "search_pages trace = concat (map page_of trace)"

text \<open>Where \<^verbatim>\<open>main\<close> enters its loop when the arguments and the output directory are
  accepted: the end time computed from the clock, and the state after the six lines of
  the run parameters and that reading of the clock.\<close>

definition loop_entry :: "env \<Rightarrow> args \<Rightarrow> world \<Rightarrow> real \<times> world" where
  "loop_entry e a w =
     (case time_time e (foldl (\<lambda>w msg. emit (Log INFO msg) w) w (run_parameters a)) of
        (t0, w2) \<Rightarrow> (real_of_int (py_int t0) + run_hours a * 60 * 60, w2))"

section \<open>Example data\<close>

text \<open>A server that finds no release in any search and reports no active task for any
  release, and a release as the search endpoint describes it.\<close>

definition demo_server :: server where
  "demo_server =
     \<lparr>url = ''https://xlr'',
      search_response = (\<lambda>data page per_page. Inr []),
      active_tasks_response = (\<lambda>rid. Inr []),
      phase_response = (\<lambda>pid. Inr \<lparr>pj_id = pid, pj_title = ''Rollout''\<rparr>)\<rparr>"

definition demo_release_json :: "string \<Rightarrow> release_json" where
  "demo_release_json ident =
     \<lparr>rj_id = ident, rj_title = ''220519A00-Shop'', rj_status = ''failed'',
      rj_currentPhase = ''Rollout''\<rparr>"

definition demo_task :: "string \<Rightarrow> string \<Rightarrow> string \<Rightarrow> task" where
  "demo_task phase_title title type =
     \<lparr>t_id = ''Applications/Release1/Phase2/Task3'',
      t_id_long = ''Applications/Release1/Phase2/Task3'',
      t_phase_id = ''Applications/Release1/Phase2'', t_release_id = ''Release1'',
      t_title = title, t_status = ''FAILED'', t_type = type,
      t_phase = \<lparr>p_id = ''Applications/Release1/Phase2'', p_title = phase_title\<rparr>\<rparr>"

definition demo_release :: "task list \<Rightarrow> linked_release" where
  "demo_release tasks =
     \<lparr>r_id = ''Release1'', r_id_long = ''Applications/Release1'',
      r_title = ''220519A00-Shop'', r_status = ''failed'', r_currentPhase = ''Rollout'',
      r_active_tasks = tasks, r_url = ''https://xlr/#/releases/Applications/Release1'',
      r_server = demo_server\<rparr>"

text \<open>A stand-in for the table generator: one line per row, the cells between bars.\<close>

definition demo_table :: "string list list \<Rightarrow> string" where
  "demo_table rows =
     concat (map (\<lambda>row. ''|'' @ concat (map (\<lambda>cell. cell @ ''|'') row) @ [newline]) rows)"




text \<open>A process started with \<^verbatim>\<open>-r 220519A00 -o out -w 3 --hours 0.05\<close>. Report generation
  is a stand-in that writes the last log line of \<^verbatim>\<open>generate_report\<close> and returns. At 1000
  a pass of the loop begins; \<open>demo_clock d\<close> is \<open>d\<close> seconds later when the report is
  done.\<close>

definition demo_args :: args where
  "demo_args =
     \<lparr>out_dir = ''out'', keep_files = False, release_title = ''220519A00'',
      run_hours = 0.05, call_every_min = 3\<rparr>"

definition quick_report :: report_generator where
  "quick_report title dir keep w =
     Some (Inr (), emit (Log INFO ''generate_report(): returning after 0seconds.'') w)"

definition demo_clock :: "real \<Rightarrow> nat \<Rightarrow> real" where
  "demo_clock d n = (if n < 2 then 1000 else 1000 + d)"

definition demo_env :: "(nat \<Rightarrow> real) \<Rightarrow> bool \<Rightarrow> env" where
  "demo_env c dir_exists =
     \<lparr>parse_args = Inr demo_args, path_exists = (\<lambda>path. dir_exists), clock = c\<rparr>"

definition world0 :: world where
  "world0 = \<lparr>clock_reads = 0, events = []\<rparr>"

text \<open>A clock that is one second further at every reading.\<close>

definition ticking_clock :: "nat \<Rightarrow> real" where
  "ticking_clock n = 1000 + real n"

text \<open>What one run of \<^verbatim>\<open>main\<close> logs in this process when it generates one report.\<close>

definition demo_run_log :: "event list" where
  "demo_run_log =
     [Log INFO ''Run parameters:'',
      Log INFO '' - Collecting info every 3 minutes.'',
      Log INFO '' - Keep files historical: False'',
      Log INFO '' - Output directory: out'',
      Log INFO '' - Release to be monitored: 220519A00'',
      Log INFO '' - Run time: 220519A00'',
      Log INFO ''generate_report(): returning after 0seconds.'']"

section \<open>Properties of the identifier parser\<close>

subsection \<open>When no delimiter is followed by the part name\<close>

lemma recognized_plain:
  "part \<in> set [''Release'', ''Phase'', ''Task''] \<Longrightarrow> plain_part part"
  by (auto simp: plain_part_def is_delim_def)

lemma is_delim_sentinel [simp]: "is_delim (sentinel ident)"
  by (simp add: sentinel_def is_delim_def)

lemma delim_not_newline: "is_delim d \<Longrightarrow> d \<noteq> newline"
  by (auto simp: is_delim_def newline_def)

lemma sentinel_not_newline [simp]:
  "sentinel ident \<noteq> newline" "newline \<noteq> sentinel ident"
  by (simp_all add: sentinel_def newline_def)

lemma has_part_append_right: "has_part part ys \<Longrightarrow> has_part part (xs @ ys)"
  by (induction xs) auto

lemma has_part_append_left: "has_part part xs \<Longrightarrow> has_part part (xs @ ys)"
  by (induction xs) auto

lemma has_part_plain_append:
  "\<forall>c\<in>set xs. \<not> is_delim c \<Longrightarrow> has_part part (xs @ ys) = has_part part ys"
  by (induction xs) auto

lemma has_part_snoc:
  assumes "plain_part part" "is_delim z"
  shows "has_part part (s @ [z]) = has_part part s"
proof (induction s)
  case Nil
  from assms show ?case by (auto simp: plain_part_def)
next
  case (Cons c cs)
  from assms have "prefix part (cs @ [z]) = prefix part cs"
    by (auto simp: prefix_snoc plain_part_def)
  with Cons show ?case by simp
qed

lemma no_part_match_segment:
  "\<not> has_part part s \<Longrightarrow> match_segment part s = None"
  by (cases s) (auto simp: match_segment_def)

lemma no_part_match_upto:
  "\<not> has_part part s \<Longrightarrow> match_upto_segment part s = None"
  by (induction s) (auto simp: match_segment_def)

lemma no_part_sub_last:
  "\<not> has_part part s \<Longrightarrow> sub_last_part part s = s"
proof (induction s)
  case Nil
  then show ?case by simp
next
  case (Cons c cs)
  from Cons.prems have "match_upto_segment part (c # cs) = None"
    by (rule no_part_match_upto)
  with Cons show ?case by simp
qed

lemma no_part_sub_upto:
  "\<not> has_part part s \<Longrightarrow> sub_upto_part part s = s"
  by (simp add: sub_upto_part_def no_part_match_upto)

lemma parse_absent_part:
  assumes "part \<in> set [''Release'', ''Phase'', ''Task'']"
    and "\<not> has_part part ident"
  shows "u_parse_xlr_id ident part last_part_only = ([], Inr (ident @ [sentinel ident]))"
proof -
  from assms(1) have "plain_part part" by (rule recognized_plain)
  with assms(2) have "\<not> has_part part (ident @ [sentinel ident])"
    by (simp add: has_part_snoc)
  then have "sub_last_part part (ident @ [sentinel ident]) = ident @ [sentinel ident]"
    and "sub_upto_part part (ident @ [sentinel ident]) = ident @ [sentinel ident]"
    by (simp_all add: no_part_sub_last no_part_sub_upto)
  with assms(1) show ?thesis
    by (simp add: u_parse_xlr_id_def return_io_def Let_def)
qed

lemma match_segment_shape:
  assumes "is_delim d" "\<forall>c\<in>set body. \<not> is_delim c" "r = [] \<or> is_delim (hd r)"
  shows "match_segment part (d # part @ body @ r) = Some (d # part @ body, r)"
proof -
  have "takeWhile (\<lambda>x. \<not> is_delim x) (body @ r) = body"
    using assms(2,3) by (cases r) (auto simp: takeWhile_append2)
  moreover have "dropWhile (\<lambda>x. \<not> is_delim x) (body @ r) = r"
    using assms(2,3) by (cases r) (auto simp: dropWhile_append2)
  ultimately show ?thesis using assms(1) by (simp add: match_segment_def)
qed

lemma match_upto_shape:
  assumes "plain_part part" "is_delim d" "\<forall>c\<in>set body. \<not> is_delim c"
    "r = [] \<or> is_delim (hd r)" "\<not> has_part part r" "newline \<notin> set pre"
  shows "match_upto_segment part (pre @ d # part @ body @ r) = Some (pre, d # part @ body, r)"
  using assms(6)
proof (induction pre)
  case Nil
  from assms(1,3,5) have "\<not> has_part part (part @ body @ r)"
    by (simp add: has_part_plain_append plain_part_def)
  then have "match_upto_segment part (part @ body @ r) = None"
    by (rule no_part_match_upto)
  with match_segment_shape [OF assms(2,3,4), where part = part] delim_not_newline [OF assms(2)]
  show ?case by simp
next
  case (Cons c pre)
  then show ?case by auto
qed

lemma has_part_shape:
  assumes "has_part part s"
  shows "\<exists>pre d body r. s = pre @ d # part @ body @ r \<and> is_delim d
           \<and> (\<forall>c\<in>set body. \<not> is_delim c) \<and> (r = [] \<or> is_delim (hd r))
           \<and> \<not> has_part part r"
  using assms
proof (induction s)
  case Nil
  then show ?case by simp
next
  case (Cons c cs)
  show ?case
  proof (cases "has_part part cs")
    case True
    from Cons.IH [OF this] obtain pre d body r where
      "cs = pre @ d # part @ body @ r" "is_delim d" "\<forall>c\<in>set body. \<not> is_delim c"
      "r = [] \<or> is_delim (hd r)" "\<not> has_part part r" by blast
    then have "c # cs = (c # pre) @ d # part @ body @ r \<and> is_delim d
           \<and> (\<forall>c\<in>set body. \<not> is_delim c) \<and> (r = [] \<or> is_delim (hd r))
           \<and> \<not> has_part part r" by simp
    then show ?thesis by blast
  next
    case False
    with Cons.prems have d: "is_delim c" and "prefix part cs" by auto
    then obtain x where x: "cs = part @ x" by (auto simp: prefix_def)
    let ?body = "takeWhile (\<lambda>x. \<not> is_delim x) x"
    let ?r = "dropWhile (\<lambda>x. \<not> is_delim x) x"
    have "has_part part ?r \<Longrightarrow> has_part part cs"
      using has_part_append_right [of part ?r "part @ ?body"] x by simp
    with False have "\<not> has_part part ?r" by blast
    moreover have "?r = [] \<or> is_delim (hd ?r)"
      using hd_dropWhile [of "\<lambda>x. \<not> is_delim x" x] by auto
    moreover have "\<forall>c\<in>set ?body. \<not> is_delim c"
      by (auto dest: set_takeWhileD)
    moreover have "c # cs = [] @ c # part @ ?body @ ?r" using x by simp
    ultimately show ?thesis using d by blast
  qed
qed

lemma skip_line_none: "newline \<notin> set r \<Longrightarrow> skip_line r = []"
  by (auto simp: skip_line_def dropWhile_eq_Nil_conv)

lemma parse_shape:
  assumes "part \<in> set [''Release'', ''Phase'', ''Task'']"
    and "is_delim d" "\<forall>c\<in>set body. \<not> is_delim c"
    and "rest = [] \<or> is_delim (hd rest)" "\<not> has_part part rest"
    and "newline \<notin> set pre" "newline \<notin> set rest"
  shows "u_parse_xlr_id (pre @ d # part @ body @ rest) part False
           = ([], Inr (pre @ d # part @ body))"
    and "u_parse_xlr_id (pre @ d # part @ body @ rest) part True
           = ([], Inr (part @ body))"
proof -
  let ?ident = "pre @ d # part @ body @ rest"
  let ?z = "sentinel ?ident"
  let ?r = "rest @ [?z]"
  from assms(1) have plain: "plain_part part" by (rule recognized_plain)
  have r1: "?r = [] \<or> is_delim (hd ?r)" using assms(4) by (cases rest) auto
  have r2: "\<not> has_part part ?r" using assms(5) plain by (simp add: has_part_snoc)
  have "match_upto_segment part (pre @ d # part @ body @ ?r) = Some (pre, d # part @ body, ?r)"
    using plain assms(2,3) r1 r2 assms(6) by (rule match_upto_shape)
  then have m: "match_upto_segment part (?ident @ [?z]) = Some (pre, d # part @ body, ?r)"
    by simp
  have s: "skip_line ?r = []" using assms(7) by (intro skip_line_none) simp
  have a: "sub_upto_part part (?ident @ [?z]) = pre @ d # part @ body"
    using m s by (simp add: sub_upto_part_def)
  obtain c cs where cs: "?ident @ [?z] = c # cs" by (cases "?ident @ [?z]") auto
  have b: "sub_last_part part (?ident @ [?z]) = part @ body"
    using m s unfolding cs by simp
  from a assms(1) show "u_parse_xlr_id ?ident part False = ([], Inr (pre @ d # part @ body))"
    by (simp add: u_parse_xlr_id_def return_io_def Let_def)
  from b assms(1) show "u_parse_xlr_id ?ident part True = ([], Inr (part @ body))"
    by (simp add: u_parse_xlr_id_def return_io_def Let_def)
qed

subsection \<open>Segments\<close>

lemma segments_not_Nil [simp]: "segments s \<noteq> []"
  by (induction s) (auto split: list.splits)

lemma hd_segments: "hd (segments s) = takeWhile (\<lambda>x. \<not> is_delim x) s"
  by (induction s) (auto split: list.splits)

lemma tl_segments_Cons:
  "tl (segments (c # cs)) = (if is_delim c then segments cs else tl (segments cs))"
  by (auto split: list.splits)

lemma segments_plain: "\<forall>c\<in>set xs. \<not> is_delim c \<Longrightarrow> segments xs = [xs]"
  by (induction xs) auto

lemma segments_plain_append:
  "\<forall>c\<in>set xs. \<not> is_delim c \<Longrightarrow>
   segments (xs @ ys) = (xs @ hd (segments ys)) # tl (segments ys)"
  by (induction xs) (auto split: list.splits)

lemma segments_append_delim:
  "is_delim d \<Longrightarrow> segments (xs @ d # ys) = segments xs @ segments ys"
  by (induction xs) (auto split: list.splits)

lemma tl_segments_append_delim:
  "is_delim d \<Longrightarrow> tl (segments (xs @ d # ys)) = tl (segments xs) @ segments ys"
  by (simp add: segments_append_delim)

lemma prefix_plain_takeWhile:
  assumes "\<forall>c\<in>set part. \<not> is_delim c"
  shows "prefix part (takeWhile (\<lambda>x. \<not> is_delim x) s) = prefix part s"
proof
  assume "prefix part (takeWhile (\<lambda>x. \<not> is_delim x) s)"
  then show "prefix part s"
    by (metis prefix_order.order_trans takeWhile_is_prefix)
next
  assume "prefix part s"
  then obtain x where "s = part @ x" by (auto simp: prefix_def)
  with assms show "prefix part (takeWhile (\<lambda>x. \<not> is_delim x) s)"
    by (simp add: takeWhile_append2)
qed

lemma has_part_segments:
  assumes "plain_part part"
  shows "has_part part s = (\<exists>seg\<in>set (tl (segments s)). prefix part seg)"
proof (induction s)
  case Nil
  then show ?case by simp
next
  case (Cons c cs)
  have hd: "prefix part (hd (segments cs)) = prefix part cs"
    using assms by (simp add: hd_segments prefix_plain_takeWhile plain_part_def)
  have split: "set (segments cs) = insert (hd (segments cs)) (set (tl (segments cs)))"
    by (cases "segments cs") auto
  show ?case
  proof (cases "is_delim c")
    case True
    then show ?thesis using Cons hd split by (auto simp: tl_segments_Cons simp del: segments.simps)
  next
    case False
    then show ?thesis using Cons by (simp add: tl_segments_Cons del: segments.simps)
  qed
qed

lemma last_segment_with_shape:
  assumes "plain_part part" "is_delim d" "\<forall>c\<in>set body. \<not> is_delim c"
    "rest = [] \<or> is_delim (hd rest)" "\<not> has_part part rest"
  shows "last_segment_with part (tl (segments (pre @ d # part @ body @ rest))) = Some (part @ body)"
proof -
  have plain: "\<forall>c\<in>set (part @ body). \<not> is_delim c"
    using assms(1,3) by (auto simp: plain_part_def)
  have "\<exists>segs. segments (part @ body @ rest) = (part @ body) # segs
           \<and> filter (prefix part) segs = []"
  proof (cases rest)
    case Nil
    with plain show ?thesis using segments_plain [of "part @ body"] by simp
  next
    case (Cons d' rest')
    with assms(4) have d': "is_delim d'" by simp
    have "segments ((part @ body) @ d' # rest') = (part @ body) # segments rest'"
      using plain d' by (simp only: segments_plain_append) (simp add: hd_segments)
    moreover have "\<not> (\<exists>seg\<in>set (tl (segments rest)). prefix part seg)"
      using assms(5) has_part_segments [OF assms(1)] by simp
    then have "filter (prefix part) (segments rest') = []"
      using Cons d' by (auto simp: filter_empty_conv)
    ultimately show ?thesis using Cons by simp
  qed
  then obtain segs where "segments (part @ body @ rest) = (part @ body) # segs"
    and "filter (prefix part) segs = []" by blast
  moreover from this(2) have "filter (prefix part) (rev segs) = []"
    by (simp add: filter_empty_conv)
  ultimately show ?thesis
    using assms(2) by (simp add: tl_segments_append_delim last_segment_with_def)
qed

subsection \<open>The claims about the parser\<close>

lemmas parse_eval = u_parse_xlr_id_def sentinel_def find_char_def sub_upto_part_def
  match_segment_def is_delim_def newline_def return_io_def skip_line_def

text \<open>
  C9. For a part name that is none of \<open>Release\<close>, \<open>Phase\<close> and \<open>Task\<close> the parser logs one
  error and leaves through \<^verbatim>\<open>sys.exit(1)\<close>, whatever the id and the flag: it returns no
  value.
\<close>

theorem parse_unknown_part_exits:
  assumes "part \<notin> {''Release'', ''Phase'', ''Task''}"
  shows "u_parse_xlr_id ident part last_part_only
           = ([Log ERROR (not_implemented_msg part)], Inl (SystemExit 1))
         \<and> (\<forall>ev v. u_parse_xlr_id ident part last_part_only \<noteq> (ev, Inr v))"
  using assms by (simp add: u_parse_xlr_id_def)

theorem parse_unknown_part_exits_witness:
  "u_parse_xlr_id ''Applications/Folder1/Release2'' ''Folder'' True
     = ([Log ERROR (not_implemented_msg ''Folder'')], Inl (SystemExit 1))
   \<and> (\<forall>ev v. u_parse_xlr_id ''Applications/Folder1/Release2'' ''Folder'' True \<noteq> (ev, Inr v))"
  using parse_unknown_part_exits [of "''Folder''" "''Applications/Folder1/Release2''" True]
  by simp

text \<open>
  C3, as stated: when no segment of the id starts with the part name, the parser returns
  the id unmodified. It does not: the sentinel appended before matching stays. In
  \<open>Applications/Folder1\<close> no segment starts with \<open>Release\<close>, and the parser returns
  \<open>Applications/Folder1/\<close> with either flag.
\<close>

theorem parse_absent_part_unmodified_counterexample:
  "last_segment_with ''Release'' (segments ''Applications/Folder1'') = None
   \<and> u_parse_xlr_id ''Applications/Folder1'' ''Release'' False
       = ([], Inr ''Applications/Folder1/'')
   \<and> u_parse_xlr_id ''Applications/Folder1'' ''Release'' True
       = ([], Inr ''Applications/Folder1/'')"
  by (simp add: parse_eval last_segment_with_def)

text \<open>The sentinel by the position of the first hyphen: \<^verbatim>\<open>id.find("-") > 0\<close> holds when
  the id has a hyphen and does not begin with one.\<close>

lemma sentinel_rule:
  "sentinel ident =
     (if (case ident of [] \<Rightarrow> False | c # cs \<Rightarrow> c \<noteq> CHR ''-'' \<and> CHR ''-'' \<in> set cs)
      then CHR ''-'' else CHR ''/'')"
  by (cases ident) (auto simp: sentinel_def find_char_def)

text \<open>
  C3, amended: for a recognized part name and an id none of whose segments starts with
  it, the parser returns the id with the sentinel appended: \<open>-\<close> when the id has a hyphen
  and its first character is not a hyphen (the first hyphen is not at index 0), \<open>/\<close>
  otherwise, that is when the id has no hyphen or begins with one.
\<close>

theorem parse_absent_part_sentinel:
  assumes "part \<in> {''Release'', ''Phase'', ''Task''}"
    and "\<forall>seg\<in>set (segments ident). \<not> prefix part seg"
  shows "u_parse_xlr_id ident part last_part_only
           = ([], Inr (ident @
                [if (case ident of [] \<Rightarrow> False
                     | c # cs \<Rightarrow> c \<noteq> CHR ''-'' \<and> CHR ''-'' \<in> set cs)
                 then CHR ''-'' else CHR ''/'']))"
proof -
  from assms(1) have rec: "part \<in> set [''Release'', ''Phase'', ''Task'']" by simp
  then have "plain_part part" by (rule recognized_plain)
  from has_part_segments [OF this, of ident] assms(2) have "\<not> has_part part ident"
    by (auto dest: list.set_sel(2) [OF segments_not_Nil])
  with rec have "u_parse_xlr_id ident part last_part_only = ([], Inr (ident @ [sentinel ident]))"
    by (rule parse_absent_part)
  then show ?thesis by (simp only: sentinel_rule)
qed

theorem parse_absent_part_sentinel_witness:
  "u_parse_xlr_id ''Applications/Folder1'' ''Phase'' False = ([], Inr ''Applications/Folder1/'')
   \<and> u_parse_xlr_id ''Applications-Folder1'' ''Phase'' True = ([], Inr ''Applications-Folder1-'')
   \<and> u_parse_xlr_id ''-a-b'' ''Phase'' True = ([], Inr ''-a-b/'')
   \<and> u_parse_xlr_id '''' ''Task'' False = ([], Inr ''/'')"
  using parse_absent_part_sentinel [of "''Phase''" "''Applications/Folder1''" False]
    parse_absent_part_sentinel [of "''Phase''" "''Applications-Folder1''" True]
    parse_absent_part_sentinel [of "''Phase''" "''-a-b''" True]
    parse_absent_part_sentinel [of "''Task''" "''''" False]
  by (simp add: is_delim_def)

text \<open>
  C2, as stated: for every composite id, the parser called for \<open>Release\<close> with
  \<open>last_part_only\<close> returns the last segment that starts with \<open>Release\<close>. Both patterns
  want a delimiter in front of the part name, so a \<open>Release\<close> segment that opens the id is
  not found: the last segment of \<open>Release1/Phase2/Task3\<close> that starts with \<open>Release\<close> is
  \<open>Release1\<close>, and the parser returns \<open>Release1/Phase2/Task3/\<close>. And \<^verbatim>\<open>.\<close> does not
  match a line feed: of an id whose first line is \<open>A\<close> and whose second line is
  \<open>B/Release1/Phase2\<close> the parser keeps the first line and the line feed in front of
  \<open>Release1\<close>.
\<close>

theorem parse_release_last_segment_counterexample:
  "last_segment_with ''Release'' (segments ''Release1/Phase2/Task3'') = Some ''Release1''
   \<and> u_parse_xlr_id ''Release1/Phase2/Task3'' ''Release'' True
       = ([], Inr ''Release1/Phase2/Task3/'')
   \<and> last_segment_with ''Release'' (segments (''A'' @ [newline] @ ''B/Release1/Phase2''))
       = Some ''Release1''
   \<and> u_parse_xlr_id (''A'' @ [newline] @ ''B/Release1/Phase2'') ''Release'' True
       = ([], Inr (''A'' @ [newline] @ ''Release1''))"
  by (simp add: parse_eval last_segment_with_def)

text \<open>
  C2, amended: for every id without a line feed in which a segment behind the first one
  starts with \<open>Release\<close>, the parser called for \<open>Release\<close> with \<open>last_part_only\<close> returns
  exactly the last such segment, whatever follows that segment.
\<close>

theorem parse_release_last_segment:
  assumes "newline \<notin> set ident"
    and "last_segment_with ''Release'' (tl (segments ident)) = Some seg"
  shows "u_parse_xlr_id ident ''Release'' True = ([], Inr seg)"
proof -
  have plain: "plain_part ''Release''" by (rule recognized_plain) simp
  from assms(2) obtain more where
    "filter (prefix ''Release'') (rev (tl (segments ident))) = seg # more"
    by (auto simp: last_segment_with_def split: list.splits)
  then have "seg \<in> set (filter (prefix ''Release'') (rev (tl (segments ident))))"
    by (simp only: list.set_intros)
  then have "\<exists>x\<in>set (tl (segments ident)). prefix ''Release'' x"
    by auto
  then have "has_part ''Release'' ident" by (simp add: has_part_segments [OF plain])
  from has_part_shape [OF this] obtain pre d body rest where
    shape: "ident = pre @ d # ''Release'' @ body @ rest" "is_delim d"
      "\<forall>c\<in>set body. \<not> is_delim c" "rest = [] \<or> is_delim (hd rest)"
      "\<not> has_part ''Release'' rest" by blast
  from assms(1) shape(1) have nl: "newline \<notin> set pre" "newline \<notin> set rest" by auto
  have "last_segment_with ''Release'' (tl (segments ident)) = Some (''Release'' @ body)"
    unfolding shape(1) using plain shape(2-5) by (rule last_segment_with_shape)
  with assms(2) have "seg = ''Release'' @ body" by simp
  moreover have "u_parse_xlr_id ident ''Release'' True = ([], Inr (''Release'' @ body))"
    unfolding shape(1) by (rule parse_shape(2)) (use shape nl in simp_all)
  ultimately show ?thesis by simp
qed

theorem parse_release_last_segment_witness:
  "u_parse_xlr_id ''Applications/Folder1/Release2/Phase3/Task4/Task5'' ''Release'' True
     = ([], Inr ''Release2'')"
  using parse_release_last_segment [of "''Applications/Folder1/Release2/Phase3/Task4/Task5''" "''Release2''"]
  by (simp add: newline_def last_segment_with_def is_delim_def)

text \<open>
  C7, as stated: whenever a matching segment exists, the result without \<open>last_part_only\<close>
  ends with the result with it. \<^verbatim>\<open>.\<close> does not match a line feed, so on an id of several
  lines each substitution stops at the end of the line: the anchored one keeps the other
  lines as they are, the other one goes on and replaces in them too.
\<close>

theorem parse_full_ends_with_last_counterexample:
  "has_part ''Release'' (''x/Release1/a'' @ [newline] @ ''b/Release2'')
   \<and> u_parse_xlr_id (''x/Release1/a'' @ [newline] @ ''b/Release2'') ''Release'' False
       = ([], Inr (''x/Release1'' @ [newline] @ ''b/Release2/''))
   \<and> u_parse_xlr_id (''x/Release1/a'' @ [newline] @ ''b/Release2'') ''Release'' True
       = ([], Inr (''Release1'' @ [newline] @ ''Release2''))
   \<and> \<not> suffix (''Release1'' @ [newline] @ ''Release2'')
              (''x/Release1'' @ [newline] @ ''b/Release2/'')"
  by (simp add: parse_eval suffix_Cons)

text \<open>
  C7, amended: for a recognized part name and an id without a line feed in which some
  delimiter is followed by the part name, the result with \<open>last_part_only\<close> is the last
  segment behind the first one that starts with the part name, and the result without
  \<open>last_part_only\<close> is the id from its start up to and including that segment where it
  stands last: the id is this result followed by a rest that is empty or begins with a
  delimiter and in which no delimiter is followed by the part name. So the result
  without \<open>last_part_only\<close> ends with the result with it, a delimiter in front.
\<close>

theorem parse_full_ends_with_last:
  assumes "part \<in> {''Release'', ''Phase'', ''Task''}"
    and "has_part part ident"
    and "newline \<notin> set ident"
  shows "\<exists>pre d lst rest.
           ident = pre @ d # lst @ rest
         \<and> is_delim d
         \<and> last_segment_with part (tl (segments ident)) = Some lst
         \<and> (rest = [] \<or> is_delim (hd rest))
         \<and> \<not> has_part part rest
         \<and> u_parse_xlr_id ident part False = ([], Inr (pre @ d # lst))
         \<and> u_parse_xlr_id ident part True = ([], Inr lst)
         \<and> suffix lst (pre @ d # lst)"
proof -
  from assms(1) have rec: "part \<in> set [''Release'', ''Phase'', ''Task'']" by simp
  then have plain: "plain_part part" by (rule recognized_plain)
  from has_part_shape [OF assms(2)] obtain pre d body rest where
    shape: "ident = pre @ d # part @ body @ rest" "is_delim d"
      "\<forall>c\<in>set body. \<not> is_delim c" "rest = [] \<or> is_delim (hd rest)"
      "\<not> has_part part rest" by blast
  from assms(3) shape(1) have nl: "newline \<notin> set pre" "newline \<notin> set rest" by auto
  have "u_parse_xlr_id ident part False = ([], Inr (pre @ d # part @ body))"
    unfolding shape(1) using rec shape(2-5) nl by (rule parse_shape(1))
  moreover have "u_parse_xlr_id ident part True = ([], Inr (part @ body))"
    unfolding shape(1) using rec shape(2-5) nl by (rule parse_shape(2))
  moreover have "last_segment_with part (tl (segments ident)) = Some (part @ body)"
    unfolding shape(1) using plain shape(2-5) by (rule last_segment_with_shape)
  moreover have "suffix (part @ body) (pre @ d # part @ body)"
    by (rule suffixI [of _ "pre @ [d]"]) simp
  moreover have "ident = pre @ d # (part @ body) @ rest" using shape(1) by simp
  ultimately show ?thesis using shape(2,4,5) by blast
qed

theorem parse_full_ends_with_last_witness:
  "(\<exists>pre d lst rest.
      ''A/Task1/Task2'' = pre @ d # lst @ rest
    \<and> is_delim d
    \<and> last_segment_with ''Task'' (tl (segments ''A/Task1/Task2'')) = Some lst
    \<and> (rest = [] \<or> is_delim (hd rest))
    \<and> \<not> has_part ''Task'' rest
    \<and> u_parse_xlr_id ''A/Task1/Task2'' ''Task'' False = ([], Inr (pre @ d # lst))
    \<and> u_parse_xlr_id ''A/Task1/Task2'' ''Task'' True = ([], Inr lst)
    \<and> suffix lst (pre @ d # lst))
   \<and> u_parse_xlr_id ''A/Task1/Task2'' ''Task'' False = ([], Inr ''A/Task1/Task2'')
   \<and> u_parse_xlr_id ''A/Task1/Task2'' ''Task'' True = ([], Inr ''Task2'')
   \<and> last_segment_with ''Task'' (tl (segments ''A/Task1/Task2'')) = Some ''Task2''"
proof -
  have "has_part ''Task'' ''A/Task1/Task2''" "newline \<notin> set ''A/Task1/Task2''"
    by (simp_all add: is_delim_def newline_def)
  with parse_full_ends_with_last [of "''Task''" "''A/Task1/Task2''"]
  have "\<exists>pre d lst rest.
      ''A/Task1/Task2'' = pre @ d # lst @ rest
    \<and> is_delim d
    \<and> last_segment_with ''Task'' (tl (segments ''A/Task1/Task2'')) = Some lst
    \<and> (rest = [] \<or> is_delim (hd rest))
    \<and> \<not> has_part ''Task'' rest
    \<and> u_parse_xlr_id ''A/Task1/Task2'' ''Task'' False = ([], Inr (pre @ d # lst))
    \<and> u_parse_xlr_id ''A/Task1/Task2'' ''Task'' True = ([], Inr lst)
    \<and> suffix lst (pre @ d # lst)"
    by simp
  moreover have "u_parse_xlr_id ''A/Task1/Task2'' ''Task'' False = ([], Inr ''A/Task1/Task2'')"
    "u_parse_xlr_id ''A/Task1/Task2'' ''Task'' True = ([], Inr ''Task2'')"
    "last_segment_with ''Task'' (tl (segments ''A/Task1/Task2'')) = Some ''Task2''"
    by (simp_all add: parse_eval last_segment_with_def)
  ultimately show ?thesis by blast
qed

section \<open>Properties of the entities\<close>

lemma bind_io_Inr:
  assumes "bind_io m f = (ev, Inr y)"
  obtains ev1 x ev2 where "m = (ev1, Inr x)" "f x = (ev2, Inr y)" "ev = ev1 @ ev2"
  using assms by (auto simp: bind_io_def split: prod.splits sum.splits)

lemma Release_init_fields:
  assumes "Release_init srv kwargs = (ev, Inr release)"
  shows "r_id_long release = rj_id kwargs"
    and "\<exists>ev0. u_parse_xlr_id (rj_id kwargs) ''Release'' True = (ev0, Inr (r_id release))"
proof -
  from assms obtain ev1 rid ev2 where
    1: "u_parse_xlr_id (rj_id kwargs) ''Release'' True = (ev1, Inr rid)"
    and 2: "bind_io (get_active_tasks srv rid) (\<lambda>tasks.
     return_io \<lparr>r_id = rid, r_id_long = rj_id kwargs, r_title = rj_title kwargs,
                r_status = rj_status kwargs, r_currentPhase = rj_currentPhase kwargs,
                r_active_tasks = tasks\<rparr>) = (ev2, Inr release)"
    unfolding Release_init_def by (rule bind_io_Inr)
  from 2 obtain tasks where
    "release = \<lparr>r_id = rid, r_id_long = rj_id kwargs, r_title = rj_title kwargs,
                r_status = rj_status kwargs, r_currentPhase = rj_currentPhase kwargs,
                r_active_tasks = tasks\<rparr>"
    by (rule bind_io_Inr) (auto simp: return_io_def)
  with 1 show "r_id_long release = rj_id kwargs"
    and "\<exists>ev0. u_parse_xlr_id (rj_id kwargs) ''Release'' True = (ev0, Inr (r_id release))"
    by auto
qed

lemma last_segments_shape:
  assumes "plain_part part" "is_delim d" "\<forall>c\<in>set body. \<not> is_delim c"
    "rest = [] \<or> is_delim (hd rest)" "\<not> has_part part rest"
    "prefix part (last (segments (pre @ d # part @ body @ rest)))"
  shows "rest = []"
proof (rule ccontr)
  assume "rest \<noteq> []"
  with assms(4) obtain d' rest' where rest: "rest = d' # rest'" "is_delim d'"
    by (cases rest) auto
  have "segments (pre @ d # part @ body @ rest) = segments (pre @ d # part @ body) @ segments rest'"
    using segments_append_delim [OF rest(2), of "pre @ d # part @ body" rest'] rest(1) by simp
  then have "last (segments (pre @ d # part @ body @ rest)) = last (segments rest')"
    by simp
  then have "last (segments (pre @ d # part @ body @ rest)) \<in> set (tl (segments rest))"
    using rest by (simp add: tl_segments_Cons del: segments.simps)
  with assms(6) have "has_part part rest"
    using has_part_segments [OF assms(1), of rest] by blast
  with assms(5) show False by simp
qed

text \<open>
  C4, as stated: after construction the \<open>id\<close> of a \<^verbatim>\<open>Release\<close> is a strict suffix of its
  \<open>id_long\<close>. The constructor takes any id the server sends. From \<open>Release1\<close>, where no
  delimiter stands before the segment, it keeps the id with the sentinel, \<open>Release1/\<close>,
  which is longer than \<open>id_long\<close>; from \<open>Applications/Release1/Phase2\<close> it keeps
  \<open>Release1\<close>, which lies inside \<open>id_long\<close> and not at its end; and from an id of two
  lines, \<open>A\<close> and \<open>B/Release1\<close>, it keeps the first line, the line feed and \<open>Release1\<close>,
  which is no part of \<open>id_long\<close>.
\<close>

theorem release_id_within_id_long_counterexample:
  "Release_init demo_server (demo_release_json ''Release1'')
     = ([Request (GET_active_tasks ''Release1/'')],
        Inr \<lparr>r_id = ''Release1/'', r_id_long = ''Release1'', r_title = ''220519A00-Shop'',
             r_status = ''failed'', r_currentPhase = ''Rollout'', r_active_tasks = []\<rparr>)
   \<and> \<not> sublist ''Release1/'' ''Release1''
   \<and> Release_init demo_server (demo_release_json ''Applications/Release1/Phase2'')
     = ([Request (GET_active_tasks ''Release1'')],
        Inr \<lparr>r_id = ''Release1'', r_id_long = ''Applications/Release1/Phase2'',
             r_title = ''220519A00-Shop'',
             r_status = ''failed'', r_currentPhase = ''Rollout'', r_active_tasks = []\<rparr>)
   \<and> \<not> suffix ''Release1'' ''Applications/Release1/Phase2''
   \<and> Release_init demo_server (demo_release_json (''A'' @ [newline] @ ''B/Release1''))
     = ([Request (GET_active_tasks (''A'' @ [newline] @ ''Release1''))],
        Inr \<lparr>r_id = ''A'' @ [newline] @ ''Release1'',
             r_id_long = ''A'' @ [newline] @ ''B/Release1'',
             r_title = ''220519A00-Shop'',
             r_status = ''failed'', r_currentPhase = ''Rollout'', r_active_tasks = []\<rparr>)
   \<and> \<not> sublist (''A'' @ [newline] @ ''Release1'') (''A'' @ [newline] @ ''B/Release1'')"
  by (simp add: Release_init_def get_active_tasks_def demo_server_def demo_release_json_def
      bind_io_def raise_for_status_def parse_eval suffix_Cons
      sublist_Cons_right)

text \<open>
  C4, amended: for every \<^verbatim>\<open>Release\<close> constructed from an id without a line feed in which
  some delimiter is followed by \<open>Release\<close>, \<open>id_long\<close> is the id received and \<open>id\<close> is a
  contiguous part of \<open>id_long\<close> other than the whole; when the last segment of \<open>id_long\<close>
  starts with \<open>Release\<close>, \<open>id\<close> is that segment and a strict suffix of \<open>id_long\<close>.
\<close>

theorem release_id_within_id_long:
  assumes "Release_init srv kwargs = (ev, Inr release)"
    and "newline \<notin> set (rj_id kwargs)"
    and "has_part ''Release'' (rj_id kwargs)"
  shows "r_id_long release = rj_id kwargs
       \<and> strict_sublist (r_id release) (r_id_long release)
       \<and> (prefix ''Release'' (last (segments (r_id_long release)))
            \<longrightarrow> r_id release = last (segments (r_id_long release))
                \<and> strict_suffix (r_id release) (r_id_long release))"
proof -
  have plain: "plain_part ''Release''" by (rule recognized_plain) simp
  from Release_init_fields [OF assms(1)] obtain ev0 where
    long: "r_id_long release = rj_id kwargs"
    and parse: "u_parse_xlr_id (rj_id kwargs) ''Release'' True = (ev0, Inr (r_id release))"
    by blast
  from has_part_shape [OF assms(3)] obtain pre d body rest where
    shape: "rj_id kwargs = pre @ d # ''Release'' @ body @ rest" "is_delim d"
      "\<forall>c\<in>set body. \<not> is_delim c" "rest = [] \<or> is_delim (hd rest)"
      "\<not> has_part ''Release'' rest" by blast
  from assms(2) shape(1) have nl: "newline \<notin> set pre" "newline \<notin> set rest" by auto
  have "u_parse_xlr_id (rj_id kwargs) ''Release'' True = ([], Inr (''Release'' @ body))"
    unfolding shape(1) by (rule parse_shape(2)) (use shape nl in simp_all)
  with parse have rid: "r_id release = ''Release'' @ body" by simp
  have sub: "sublist (r_id release) (r_id_long release)"
    unfolding sublist_def long shape(1) rid by (intro exI [of _ "pre @ [d]"] exI [of _ rest]) simp
  have "length (r_id release) < length (r_id_long release)"
    unfolding long shape(1) rid by simp
  then have ne: "r_id release \<noteq> r_id_long release" by auto
  have last: "r_id release = last (segments (r_id_long release))
                \<and> strict_suffix (r_id release) (r_id_long release)"
    if "prefix ''Release'' (last (segments (r_id_long release)))"
  proof -
    from that have "rest = []"
      unfolding long shape(1) using plain shape(2-5) by (intro last_segments_shape) 
    then have eq: "r_id_long release = (pre @ [d]) @ r_id release"
      unfolding long shape(1) rid by simp
    have "segments ((pre @ [d]) @ r_id release) = segments pre @ segments (r_id release)"
      using segments_append_delim [OF shape(2), of pre "r_id release"] by simp
    moreover have "segments (r_id release) = [r_id release]"
      unfolding rid using shape(3) by (intro segments_plain) (auto simp: is_delim_def)
    ultimately have "last (segments (r_id_long release)) = r_id release"
      unfolding eq by simp
    moreover have "suffix (r_id release) (r_id_long release)"
      unfolding eq by (rule suffixI) simp
    ultimately show ?thesis using ne by (simp add: strict_suffix_def)
  qed
  from long sub ne last show ?thesis unfolding strict_sublist_def by blast
qed

theorem release_id_within_id_long_witness:
  "\<exists>ev release. Release_init demo_server (demo_release_json ''Applications/Folder1/Release2'')
       = (ev, Inr release)
     \<and> r_id_long release = ''Applications/Folder1/Release2''
     \<and> r_id release = ''Release2''
     \<and> strict_sublist (r_id release) (r_id_long release)
     \<and> strict_suffix (r_id release) (r_id_long release)"
proof -
  let ?kw = "demo_release_json ''Applications/Folder1/Release2''"
  let ?r = "\<lparr>r_id = ''Release2'', r_id_long = ''Applications/Folder1/Release2'',
             r_title = ''220519A00-Shop'',
             r_status = ''failed'', r_currentPhase = ''Rollout'', r_active_tasks = []\<rparr>"
  have init: "Release_init demo_server ?kw = ([Request (GET_active_tasks ''Release2'')], Inr ?r)"
    by (simp add: Release_init_def get_active_tasks_def demo_server_def demo_release_json_def
      bind_io_def raise_for_status_def parse_eval)
  have "newline \<notin> set (rj_id ?kw)" "has_part ''Release'' (rj_id ?kw)"
    by (simp_all add: demo_release_json_def newline_def is_delim_def)
  from release_id_within_id_long [OF init this]
  have "strict_sublist (r_id ?r) (r_id_long ?r) \<and> strict_suffix (r_id ?r) (r_id_long ?r)"
    by (simp add: is_delim_def)
  with init show ?thesis by simp
qed

section \<open>Properties of the report section\<close>

lemma active_cells_snoc:
  "active_cells (tasks @ [t]) = (p_title (t_phase t), t_title t, t_type t)"
  by (simp add: active_cells_def split: prod.splits)

text \<open>
  C6. For a release with two or more active tasks, the cells for the active phase, the
  active task and the task type in its row are those of the last active task: every
  pass of the inner loop overwrites the three cells, and the row is the one the release
  would get with its last active task alone.
\<close>

theorem row_shows_last_active_task:
  assumes "2 \<le> length (r_active_tasks release)"
  shows "md_row release =
           ['' ['' @ strip_ticket (r_title release) @ '']('' @ r_url release @ '')'',
            r_status release,
            p_title (t_phase (last (r_active_tasks release))),
            t_title (last (r_active_tasks release)),
            t_type (last (r_active_tasks release))]
       \<and> md_row release
           = md_row (release\<lparr>r_active_tasks := [last (r_active_tasks release)]\<rparr>)"
proof -
  from assms have "r_active_tasks release \<noteq> []" by auto
  then have "r_active_tasks release
               = butlast (r_active_tasks release) @ [last (r_active_tasks release)]"
    by simp
  then have "active_cells (r_active_tasks release)
               = (p_title (t_phase (last (r_active_tasks release))),
                  t_title (last (r_active_tasks release)),
                  t_type (last (r_active_tasks release)))"
    using active_cells_snoc [of "butlast (r_active_tasks release)" "last (r_active_tasks release)"]
    by simp
  moreover have "active_cells [last (r_active_tasks release)]
               = (p_title (t_phase (last (r_active_tasks release))),
                  t_title (last (r_active_tasks release)),
                  t_type (last (r_active_tasks release)))"
    using active_cells_snoc [of "[]" "last (r_active_tasks release)"] by simp
  ultimately show ?thesis by (simp add: md_row_def)
qed

theorem row_shows_last_active_task_witness:
  "md_row (demo_release [demo_task ''Build'' ''Compile'' ''xlrelease.ScriptTask'',
                         demo_task ''Rollout'' ''Deploy shop'' ''xlrelease.GateTask''])
     = ['' [Shop](https://xlr/#/releases/Applications/Release1)'', ''failed'',
        ''Rollout'', ''Deploy shop'', ''xlrelease.GateTask'']
   \<and> md_row (demo_release [demo_task ''Build'' ''Compile'' ''xlrelease.ScriptTask'',
                           demo_task ''Rollout'' ''Deploy shop'' ''xlrelease.GateTask''])
     = md_row (demo_release [demo_task ''Rollout'' ''Deploy shop'' ''xlrelease.GateTask''])"
  using row_shows_last_active_task
    [of "demo_release [demo_task ''Build'' ''Compile'' ''xlrelease.ScriptTask'',
                       demo_task ''Rollout'' ''Deploy shop'' ''xlrelease.GateTask'']"]
  by (simp add: demo_release_def demo_task_def match_ticket_def is_digit_def md_row_def
      active_cells_def)

text \<open>
  C8. For the empty list the section is the header line followed by the literal line
  \<open>No releases found.\<close> and an empty line, and no table is laid out; for a list that is not
  empty the section is the header line followed by the table laid out from the header row
  and one row per release, and the literal line is not written.
\<close>

theorem section_of_releases:
  "get_md_from_releases generate_markdown [] title
     = ''## '' @ title @ [newline] @ ''No releases found.'' @ [newline, newline]
   \<and> (releases \<noteq> [] \<longrightarrow>
        get_md_from_releases generate_markdown releases title
          = ''## '' @ title @ [newline]
            @ generate_markdown (header_row # map md_row releases) @ [newline])"
  by (simp add: get_md_from_releases_def md_rows_def)

theorem section_of_releases_witness:
  "get_md_from_releases demo_table [] ''Failed items with tag: [release]''
     = ''## Failed items with tag: [release]'' @ [newline]
       @ ''No releases found.'' @ [newline, newline]
   \<and> get_md_from_releases demo_table [demo_release []] ''Failed items with tag: [release]''
     = ''## Failed items with tag: [release]'' @ [newline]
       @ demo_table
           [[''Release'', ''Status'', ''Active Phase'', ''Active task'', ''Task type''],
            ['' [Shop](https://xlr/#/releases/Applications/Release1)'', ''failed'',
             ''-'', ''-'', ''-'']]
       @ [newline]"
  using section_of_releases [of demo_table "''Failed items with tag: [release]''"
      "[demo_release []]"]
  by (simp add: header_row_def md_row_def active_cells_def demo_release_def
      match_ticket_def is_digit_def)

section \<open>Properties of the search\<close>

lemma search_pages_append [simp]:
  "search_pages (a @ b) = search_pages a @ search_pages b"
  by (simp add: search_pages_def)

lemma search_pages_Nil [simp]: "search_pages [] = []"
  by (simp add: search_pages_def)

lemma search_pages_Cons [simp]: "search_pages (e # es) = page_of e @ search_pages es"
  by (simp add: search_pages_def)














section \<open>Properties of the poll loop\<close>

lemmas cycle_eval = poll_cycle_def time_time_def py_int_def wait_or_warn_def emit_def
  str_int_def str_nat.simps demo_env_def demo_clock_def demo_args_def quick_report_def world0_def

text \<open>What the end of a pass does, by the clock after the report: it sleeps when the
  clock is past \<open>next_run\<close>, for the time it is past, and warns otherwise.\<close>

lemma wait_or_warn_events:
  "events (wait_or_warn (now - next_run) w) =
     events w @
       (if next_run < now
        then [Log INFO (''Waiting '' @ str_int (now - next_run) @ '' seconds...''),
              Sleep (now - next_run)]
        else [Log WARNING (''Wait time too low. ('' @ str_int (now - next_run) @ '')'')])"
  by (simp add: wait_or_warn_def emit_def)

text \<open>
  C1. The claim: in a pass that is not the last the loop sleeps until the next tick, and
  when the report took longer than the interval it warns and does not sleep. The code
  computes \<^verbatim>\<open>sleep_time_s = int(time.time()) - next_run\<close>, the difference the wrong way
  round. With an interval of 3 minutes and a pass that starts at 1000, a report that is
  done at 1010 leaves \<open>-170\<close>: the loop warns and starts the next pass at once. A report
  that is done at 1200, 20 seconds past the tick at 1180, leaves \<open>20\<close>: the loop sleeps
  20 seconds.
\<close>

theorem poll_cycle_wait_inverted:
  "poll_cycle quick_report (demo_env (demo_clock 10) True) demo_args 4600 world0
     = Some (Continue \<lparr>clock_reads = 3,
          events = [Log INFO ''generate_report(): returning after 0seconds.'',
                    Log WARNING ''Wait time too low. (-170)'']\<rparr>)
   \<and> poll_cycle quick_report (demo_env (demo_clock 200) True) demo_args 4600 world0
     = Some (Continue \<lparr>clock_reads = 3,
          events = [Log INFO ''generate_report(): returning after 0seconds.'',
                    Log INFO ''Waiting 20 seconds...'', Sleep 20]\<rparr>)"
  by (simp add: cycle_eval)

lemma main_accepted:
  assumes "parse_args e = Inr a" "release_title a \<noteq> []" "path_exists e (out_dir a)"
  shows "main gen e w = poll_loop gen e a (fst (loop_entry e a w)) (snd (loop_entry e a w))"
  using assms by (simp add: main_def loop_entry_def Let_def split: prod.splits)

lemma main_returns_accepted:
  assumes "main gen e w = Some (Inr u, w')"
  obtains a where "parse_args e = Inr a" "release_title a \<noteq> []" "path_exists e (out_dir a)"
  using assms by (auto simp: main_def split: sum.splits if_splits)

lemma demo_first_run:
  "main quick_report (demo_env ticking_clock True) world0
     = Some (Inr (), \<lparr>clock_reads = 4, events = demo_run_log\<rparr>)"
  by (simp add: main_def Let_def run_parameters_def str_bool_def ticking_clock_def
        demo_run_log_def time_time_def py_int_def emit_def str_int_def str_nat.simps
        demo_env_def demo_args_def world0_def,
      subst poll_loop.simps,
      simp add: poll_cycle_def time_time_def py_int_def ticking_clock_def quick_report_def
        emit_def)

lemma demo_second_run:
  "main quick_report (demo_env ticking_clock True) \<lparr>clock_reads = 4, events = demo_run_log\<rparr>
     = Some (Inr (), \<lparr>clock_reads = 8, events = demo_run_log @ demo_run_log\<rparr>)"
  by (simp add: main_def Let_def run_parameters_def str_bool_def ticking_clock_def
        demo_run_log_def time_time_def py_int_def emit_def str_int_def str_nat.simps
        demo_env_def demo_args_def world0_def,
      subst poll_loop.simps,
      simp add: poll_cycle_def time_time_def py_int_def ticking_clock_def quick_report_def
        emit_def)

text \<open>
  C10, as stated: on every invocation as a script \<^verbatim>\<open>main()\<close> is executed twice and the
  poll loop runs two times. The second call is reached only when the first returns: when
  the output directory does not exist, the first call logs the error and exits with
  status 1, no clock is read, no loop runs, and the script ends there.
\<close>

theorem script_main_twice_counterexample:
  "run_as_script quick_report (demo_env ticking_clock False) world0
     = Some (Inl (SystemExit 1),
             \<lparr>clock_reads = 0, events = [Log ERROR (no_directory_msg ''out'')]\<rparr>)
   \<and> main quick_report (demo_env ticking_clock False) world0
     = Some (Inl (SystemExit 1),
             \<lparr>clock_reads = 0, events = [Log ERROR (no_directory_msg ''out'')]\<rparr>)"
  by (simp add: run_as_script_def main_def demo_env_def demo_args_def world0_def emit_def)

text \<open>
  C10, amended: whenever the first call of \<^verbatim>\<open>main()\<close> returns, the arguments were
  accepted, the call was a run of the poll loop, and the script goes on with a second
  call of \<^verbatim>\<open>main()\<close> from the state the first one left: a second run of the poll loop,
  with an end time computed anew from the clock. Whenever the first call exits or
  raises, the script ends with that exit or exception.
\<close>

theorem script_main_twice:
  "(main gen e w = Some (Inr (), w') \<longrightarrow>
      (\<exists>a. parse_args e = Inr a
         \<and> main gen e w = poll_loop gen e a (fst (loop_entry e a w)) (snd (loop_entry e a w))
         \<and> run_as_script gen e w = main gen e w'
         \<and> main gen e w'
             = poll_loop gen e a (fst (loop_entry e a w')) (snd (loop_entry e a w'))))
   \<and> (main gen e w = Some (Inl err, w') \<longrightarrow>
        run_as_script gen e w = Some (Inl err, w'))"
proof (intro conjI impI)
  assume first: "main gen e w = Some (Inr (), w')"
  then obtain a where
    a: "parse_args e = Inr a" "release_title a \<noteq> []" "path_exists e (out_dir a)"
    by (rule main_returns_accepted)
  from first have "run_as_script gen e w = main gen e w'"
    by (simp add: run_as_script_def)
  with a main_accepted [OF a, of gen]
  show "\<exists>a. parse_args e = Inr a
         \<and> main gen e w = poll_loop gen e a (fst (loop_entry e a w)) (snd (loop_entry e a w))
         \<and> run_as_script gen e w = main gen e w'
         \<and> main gen e w'
             = poll_loop gen e a (fst (loop_entry e a w')) (snd (loop_entry e a w'))"
    by blast
next
  assume "main gen e w = Some (Inl err, w')"
  then show "run_as_script gen e w = Some (Inl err, w')"
    by (simp add: run_as_script_def)
qed

theorem script_main_twice_witness:
  "main quick_report (demo_env ticking_clock True) world0
     = Some (Inr (), \<lparr>clock_reads = 4, events = demo_run_log\<rparr>)
   \<and> run_as_script quick_report (demo_env ticking_clock True) world0
     = main quick_report (demo_env ticking_clock True) \<lparr>clock_reads = 4, events = demo_run_log\<rparr>
   \<and> run_as_script quick_report (demo_env ticking_clock True) world0
     = Some (Inr (), \<lparr>clock_reads = 8, events = demo_run_log @ demo_run_log\<rparr>)
   \<and> main quick_report (demo_env ticking_clock False) world0
     = Some (Inl (SystemExit 1),
             \<lparr>clock_reads = 0, events = [Log ERROR (no_directory_msg ''out'')]\<rparr>)
   \<and> run_as_script quick_report (demo_env ticking_clock False) world0
     = Some (Inl (SystemExit 1),
             \<lparr>clock_reads = 0, events = [Log ERROR (no_directory_msg ''out'')]\<rparr>)"
proof -
  have first: "main quick_report (demo_env ticking_clock True) world0
     = Some (Inr (), \<lparr>clock_reads = 4, events = demo_run_log\<rparr>)"
    by (rule demo_first_run)
  have exits: "main quick_report (demo_env ticking_clock False) world0
     = Some (Inl (SystemExit 1),
             \<lparr>clock_reads = 0, events = [Log ERROR (no_directory_msg ''out'')]\<rparr>)"
    by (simp add: main_def demo_env_def demo_args_def world0_def emit_def)
  from first
    script_main_twice [of quick_report "demo_env ticking_clock True" world0
      "\<lparr>clock_reads = 4, events = demo_run_log\<rparr>"]
  have again: "run_as_script quick_report (demo_env ticking_clock True) world0
     = main quick_report (demo_env ticking_clock True) \<lparr>clock_reads = 4, events = demo_run_log\<rparr>"
    by blast
  from exits
    script_main_twice [of quick_report "demo_env ticking_clock False" world0
      "\<lparr>clock_reads = 0, events = [Log ERROR (no_directory_msg ''out'')]\<rparr>" "SystemExit 1"]
  have "run_as_script quick_report (demo_env ticking_clock False) world0
     = Some (Inl (SystemExit 1),
             \<lparr>clock_reads = 0, events = [Log ERROR (no_directory_msg ''out'')]\<rparr>)"
    by blast
  with first again exits demo_second_run show ?thesis by simp
qed

end
